theory Spec2Isabelle
  imports Main "HOL-Library.Word" "HOL-Library.AList"
begin

section \<open>Strings of the Go runtime\<close>

text \<open>
  A Go string is a sequence of bytes and every index of the program counts bytes, so a string
  is a \<^typ>\<open>string\<close> (a list of 8-bit characters). Indices and lengths are Go
  \<open>int\<close>s; they are bounded by the length of a string, so they are modelled as
  \<^typ>\<open>int\<close>, which keeps the value \<open>-1\<close> that \<open>strings.Index\<close>
  returns. The nesting counter \<open>depth\<close> is the only integer of the program that is
  incremented without bound, so it is a 64-bit word and wraps as a Go \<open>int\<close> does.
\<close>

text \<open>\<open>strings.Index(s, sep)\<close> for a separator of one byte: the index of its first
  occurrence, \<open>-1\<close> when there is none.\<close>

definition Index :: "string \<Rightarrow> char \<Rightarrow> int" where
  "Index s c = (if c \<in> set s then int (length (takeWhile (\<lambda>x. x \<noteq> c) s)) else - 1)"

text \<open>The slice expression \<open>s[lo:hi]\<close>: it panics unless \<open>0 \<le> lo \<le> hi \<le> len(s)\<close>;
  \<open>None\<close> is the panic.\<close>

definition slice :: "string \<Rightarrow> int \<Rightarrow> int \<Rightarrow> string option" where
  "slice s lo hi =
     (if 0 \<le> lo \<and> lo \<le> hi \<and> hi \<le> int (length s)
      then Some (take (nat (hi - lo)) (drop (nat lo) s)) else None)"

text \<open>\<open>strings.Split(s, sep)\<close> for a separator of one byte: the pieces between the
  occurrences of the separator, so one piece more than there are separators.\<close>

fun Split :: "string \<Rightarrow> char \<Rightarrow> string list" where
  "Split [] c = [[]]"
| "Split (x # xs) c =
     (if x = c then [] # Split xs c
      else (x # hd (Split xs c)) # tl (Split xs c))"

text \<open>\<open>strings.Replace(s, old, new, -1)\<close> for one-byte \<open>old\<close> and \<open>new\<close>.\<close>

definition Replace :: "string \<Rightarrow> char \<Rightarrow> char \<Rightarrow> string" where
  "Replace s old new = map (\<lambda>x. if x = old then new else x) s"

section \<open>The pattern tokenizer\<close>

text \<open>
  What a call of \<open>tokenizePattern\<close> can hand back: a slice of segments, the \<open>nil\<close>
  slice, or a run-time panic of a slice expression whose bounds are out of range.
\<close>

datatype tokens_result = Segments "string list" | NilSlice | SlicePanic

text \<open>The statements after the loop: \<open>nil\<close> unless the depth is back at zero.\<close>

definition finish :: "64 word \<Rightarrow> string list \<Rightarrow> tokens_result" where
  "finish depth tokens = (if depth \<noteq> 0 then NilSlice else Segments tokens)"

text \<open>
  One pass through the body of the \<open>for\<close> loop, from the values of \<open>pos\<close>,
  \<open>start\<close>, \<open>depth\<close> and \<open>tokens\<close> at its head: the loop is left by a
  \<open>break\<close> (with the depth reached there), or by a panic, or goes round again with new values.
\<close>

datatype scan_step =
    Break "64 word"
  | Panics
  | Again int int "64 word" "string list"

definition loop_body :: "string \<Rightarrow> int \<Rightarrow> int \<Rightarrow> 64 word \<Rightarrow> string list \<Rightarrow> scan_step" where
  "loop_body pattern pos start depth tokens =
     (let len = int (length pattern) in
      if pos + 1 > len then Break depth
      else
        (case slice pattern (pos + 1) len of
           None \<Rightarrow> Panics
         | Some rest \<Rightarrow>
            (let open0 = Index rest CHR ''{'';
                 closing = Index rest CHR ''}''
             in if open0 = - 1 \<and> closing = - 1 then Break depth
                else
                  (let opn = (if open0 = - 1 then len else open0);
                       depth' = (if closing > opn then depth + 1 else depth - 1);
                       pos' = (if closing > opn then opn else closing)
                   in if depth' = 0 then
                        (case slice pattern (pos' + 1) opn of
                           None \<Rightarrow> Panics
                         | Some t \<Rightarrow> Again pos' opn depth' (tokens @ [t]))
                      else if opn = - 1 \<or> closing = - 1 then Break depth'
                      else Again pos' start depth' tokens))))"

text \<open>
  The loop itself. Nothing in the source bounds the number of passes, so the loop is a
  partial function: \<open>None\<close> means that it runs forever.
\<close>

partial_function (option) scan ::
  "string \<Rightarrow> int \<Rightarrow> int \<Rightarrow> 64 word \<Rightarrow> string list \<Rightarrow> tokens_result option" where
  "scan pattern pos start depth tokens =
     (case loop_body pattern pos start depth tokens of
        Break depth' \<Rightarrow> Some (finish depth' tokens)
      | Panics \<Rightarrow> Some SlicePanic
      | Again pos' start' depth' tokens' \<Rightarrow> scan pattern pos' start' depth' tokens')"

declare scan.simps [code]

definition tokenizePattern :: "string \<Rightarrow> tokens_result option" where
  "tokenizePattern pattern =
     (let pos = Index pattern CHR ''{'' in
      if pos = - 1 then Some (Segments [pattern])
      else
        (case slice pattern 0 pos of
           None \<Rightarrow> Some SlicePanic
         | Some t \<Rightarrow> scan pattern pos pos 1 [t]))"

text \<open>
  What \<open>format\<close> and the operations of the resolver give back beside their value: a Go
  \<open>error\<close> with its message, or a run-time panic.
\<close>

datatype fault = Panic | Err string

text \<open>\<open>format\<close> never reads \<open>params\<close> and \<open>lang\<close>. It returns when the
  tokenizer does.\<close>

definition format :: "string \<Rightarrow> (string \<rightharpoonup> string) \<Rightarrow> string \<Rightarrow> (fault + string) option" where
  "format pattern params lang =
     (case tokenizePattern pattern of
        None \<Rightarrow> None
      | Some SlicePanic \<Rightarrow> Some (Inl Panic)
      | Some NilSlice \<Rightarrow> Some (Inl (Err ''message pattern is invalid''))
      | Some (Segments tokens) \<Rightarrow> Some (Inr (concat tokens)))"

section \<open>The message source\<close>

text \<open>
  A \<open>TMsgs\<close> is a Go map from strings to strings, or \<open>nil\<close>. The map is an association
  list with one pair for each key; the order of the pairs is the order in which a \<open>range\<close>
  loop visits them, which Go leaves open, so nothing below depends on it. \<open>None\<close> is the
  \<open>nil\<close> map.
\<close>

type_synonym table = "(string \<times> string) list"
type_synonym TMsgs = "table option"

text \<open>The two-valued read \<open>v, ok := m[k]\<close>; on a \<open>nil\<close> map it finds nothing.\<close>

definition lookup :: "TMsgs \<Rightarrow> string \<Rightarrow> string option" where
  "lookup m k = (case m of None \<Rightarrow> None | Some t \<Rightarrow> map_of t k)"

text \<open>The one-valued read \<open>m[k]\<close>: the zero value \<open>""\<close> for a missing key.\<close>

definition read_key :: "table \<Rightarrow> string \<Rightarrow> string" where
  "read_key t k = (case map_of t k of None \<Rightarrow> [] | Some v \<Rightarrow> v)"

text \<open>
  The struct \<open>MessageSource\<close>. The injected \<open>loadFunc\<close> is a Go closure that may read the
  file system, so it runs in a world \<^typ>\<open>'w\<close> that it may change, and it hands back both of
  its results, the table and the error (\<open>None\<close> is the \<open>nil\<close> error). The cache
  \<open>messages\<close> is a Go map that is \<open>nil\<close> until it is allocated.
\<close>

record 'w MessageSource =
  SourceLang :: string
  ForceTranslation :: bool
  BasePath :: string
  FileMap :: "string \<rightharpoonup> string"
  fileSuffix :: string
  loadFunc :: "string \<Rightarrow> 'w \<Rightarrow> (TMsgs \<times> string option) \<times> 'w"
  messages :: "(string \<rightharpoonup> TMsgs) option"

text \<open>What is outside the struct: the world of the loader, and the list of the file names
  that \<open>loadFunc\<close> has been called with, oldest first.\<close>

record 'w env =
  world :: 'w
  loaded :: "string list"

definition call_loadFunc ::
  "'w MessageSource \<Rightarrow> string \<Rightarrow> 'w env \<Rightarrow> (TMsgs \<times> string option) \<times> 'w env" where
  "call_loadFunc ms filename e =
     (case loadFunc ms filename (world e) of
        (r, w) \<Rightarrow> (r, \<lparr>world = w, loaded = loaded e @ [filename]\<rparr>))"

text \<open>\<open>GetMsgFilePath\<close>. Indexing the result of \<open>strings.Split\<close> at 1 panics when the
  category has no dot. In the branch for a suffix that \<open>FileMap\<close> lacks, \<open>v\<close> is the zero
  value of the failed read.\<close>

definition GetMsgFilePath :: "'w MessageSource \<Rightarrow> string \<Rightarrow> string \<Rightarrow> fault + string" where
  "GetMsgFilePath ms category lang =
     (let cates = Split category CHR ''.'' in
      if length cates < 2 then Inl Panic
      else
        (let suffix = cates ! 1;
             path = BasePath ms @ ''/'' @ lang @ ''/''
         in case FileMap ms suffix of
              None \<Rightarrow> Inr (path @ [])
            | Some v \<Rightarrow>
                Inr (path @ Replace suffix (CHR 0x5C) CHR ''/'' @
                     (if fileSuffix ms \<noteq> [] then ''.'' @ fileSuffix ms else []))))"

text \<open>One pass of the \<open>range\<close> loop of \<open>LoadFallbackMsgs\<close>, for the pair
  \<open>(key, val)\<close> of \<open>fallbackMsgs\<close>.\<close>

definition merge_entry :: "table \<Rightarrow> string \<times> string \<Rightarrow> table \<Rightarrow> table" where
  "merge_entry fallbackMsgs kv msgs =
     (case kv of (key, val) \<Rightarrow>
        (if val \<noteq> [] \<and> (case map_of msgs key of None \<Rightarrow> True | Some v \<Rightarrow> v = [])
         then AList.update key (read_key fallbackMsgs key) msgs
         else msgs))"

definition LoadFallbackMsgs ::
  "'w MessageSource \<Rightarrow> string \<Rightarrow> string \<Rightarrow> TMsgs \<Rightarrow> string \<Rightarrow> 'w env
     \<Rightarrow> (fault + TMsgs) \<times> 'w env" where
  "LoadFallbackMsgs ms category fallbackLang msgs originalMsgFile e =
     (case GetMsgFilePath ms category fallbackLang of
        Inl f \<Rightarrow> (Inl f, e)
      | Inr fallbackMsgFile \<Rightarrow>
         (case call_loadFunc ms fallbackMsgFile e of
            ((fallbackMsgs, _), e') \<Rightarrow>
              if msgs = None \<and> fallbackMsgs = None \<and> fallbackLang \<noteq> SourceLang ms
              then
                (if length (SourceLang ms) < 2 then (Inl Panic, e')
                 else if fallbackLang \<noteq> take 2 (SourceLang ms)
                 then (Inl (Err (''The message file for category '' @ category @
                          '' does not exist: '' @ originalMsgFile @
                          '' Fallback file does not exist as well: '' @ fallbackMsgFile)), e')
                 else (Inr fallbackMsgs, e'))
              else
                (case msgs of
                   None \<Rightarrow> (Inr fallbackMsgs, e')
                 | Some m \<Rightarrow>
                    (case fallbackMsgs of
                       None \<Rightarrow> (Inr msgs, e')
                     | Some fb \<Rightarrow> (Inr (Some (fold (merge_entry fb) fb m)), e')))))"

definition LoadMsgs ::
  "'w MessageSource \<Rightarrow> string \<Rightarrow> string \<Rightarrow> 'w env \<Rightarrow> (fault + TMsgs) \<times> 'w env" where
  "LoadMsgs ms category lang e =
     (case GetMsgFilePath ms category lang of
        Inl f \<Rightarrow> (Inl f, e)
      | Inr msgFile \<Rightarrow>
         (case call_loadFunc ms msgFile e of
            ((msgs, Some err), e') \<Rightarrow> (Inl (Err err), e')
          | ((msgs, None), e') \<Rightarrow>
              if length lang < 2 then (Inl Panic, e')
              else if length (SourceLang ms) < 2 then (Inl Panic, e')
              else
                (let fallbackLang = take 2 lang;
                     fallbackSourceLang = take 2 (SourceLang ms)
                 in if lang \<noteq> fallbackLang
                    then LoadFallbackMsgs ms category fallbackLang msgs msgFile e'
                    else if lang = fallbackSourceLang
                    then LoadFallbackMsgs ms category (SourceLang ms) msgs msgFile e'
                    else if msgs = None
                    then (Inl (Err (''the message file for category '' @ category @
                            '' does not exist: '' @ msgFile)), e')
                    else (Inr msgs, e'))))"

text \<open>The first two statements of \<open>TranslateMsg\<close>: the key of the cache, with the panic of
  \<open>cates[1]\<close> as \<open>None\<close>.\<close>

definition cacheKey :: "string \<Rightarrow> string \<Rightarrow> string option" where
  "cacheKey category lang =
     (let cates = Split category CHR ''.'' in
      if length cates < 2 then None
      else Some (cates ! 0 @ ''/'' @ lang @ ''/'' @ cates ! 1))"

text \<open>The read \<open>ms.messages[key]\<close> with its \<open>ok\<close>; a \<open>nil\<close> cache holds nothing.\<close>

definition cached :: "'w MessageSource \<Rightarrow> string \<Rightarrow> TMsgs option" where
  "cached ms key = (case messages ms of None \<Rightarrow> None | Some c \<Rightarrow> c key)"

text \<open>The assignment \<open>ms.messages[key] = val\<close>; it panics (\<open>None\<close>) on a \<open>nil\<close> map.\<close>

definition store :: "'w MessageSource \<Rightarrow> string \<Rightarrow> TMsgs \<Rightarrow> 'w MessageSource option" where
  "store ms key val =
     (case messages ms of
        None \<Rightarrow> None
      | Some c \<Rightarrow> Some (ms\<lparr>messages := Some (c(key \<mapsto> val))\<rparr>))"

text \<open>The second half of \<open>TranslateMsg\<close>, from the read of the message on: the translation
  when it is there and not empty, else the one-entry table with the empty value is stored.\<close>

definition answer ::
  "'w MessageSource \<Rightarrow> string \<Rightarrow> string \<Rightarrow> 'w env
     \<Rightarrow> (fault + string) \<times> 'w MessageSource \<times> 'w env" where
  "answer ms key message e =
     (case lookup (case cached ms key of None \<Rightarrow> None | Some t \<Rightarrow> t) message of
        Some msg \<Rightarrow>
          if msg \<noteq> [] then (Inr msg, ms, e)
          else (case store ms key (Some [(message, [])]) of
                  None \<Rightarrow> (Inl Panic, ms, e)
                | Some ms' \<Rightarrow> (Inr [], ms', e))
      | None \<Rightarrow>
          (case store ms key (Some [(message, [])]) of
             None \<Rightarrow> (Inl Panic, ms, e)
           | Some ms' \<Rightarrow> (Inr [], ms', e)))"

definition TranslateMsg ::
  "'w MessageSource \<Rightarrow> string \<Rightarrow> string \<Rightarrow> string \<Rightarrow> 'w env
     \<Rightarrow> (fault + string) \<times> 'w MessageSource \<times> 'w env" where
  "TranslateMsg ms category message lang e =
     (case cacheKey category lang of
        None \<Rightarrow> (Inl Panic, ms, e)
      | Some key \<Rightarrow>
         (case cached ms key of
            Some t \<Rightarrow> answer ms key message e
          | None \<Rightarrow>
             (case LoadMsgs ms category lang e of
                (Inl f, e') \<Rightarrow> (Inl f, ms, e')
              | (Inr val, e') \<Rightarrow>
                 (case store ms key val of
                    None \<Rightarrow> (Inl Panic, ms, e')
                  | Some ms' \<Rightarrow> answer ms' key message e'))))"

definition Translate ::
  "'w MessageSource \<Rightarrow> string \<Rightarrow> string \<Rightarrow> string \<Rightarrow> 'w env
     \<Rightarrow> (fault + string) \<times> 'w MessageSource \<times> 'w env" where
  "Translate ms category message lang e =
     (if ForceTranslation ms \<or> lang \<noteq> SourceLang ms
      then TranslateMsg ms category message lang e
      else (Inr [], ms, e))"

section \<open>Definitions for the statements\<close>

text \<open>
  What holds at the head of the loop when the pattern has an opening brace: the cursor is in
  range, and either the depth is not zero or a brace lies behind the cursor.
\<close>

definition scan_inv :: "string \<Rightarrow> int \<Rightarrow> 64 word \<Rightarrow> bool" where
  "scan_inv pattern pos depth \<longleftrightarrow>
     CHR ''{'' \<in> set pattern \<and> - 1 \<le> pos \<and> pos < int (length pattern) \<and>
     (depth \<noteq> 0 \<or> set (drop (nat (pos + 1)) pattern) \<inter> {CHR ''{'', CHR ''}''} \<noteq> {})"


text \<open>
  Balanced braces, as the specification means them: read from the left, with the depth going
  up at an opening and down at a closing brace, the depth never goes below zero and ends at
  zero.
\<close>

fun depth_scan :: "string \<Rightarrow> nat \<Rightarrow> bool" where
  "depth_scan [] d = (d = 0)"
| "depth_scan (c # cs) d =
     (if c = CHR ''{'' then depth_scan cs (d + 1)
      else if c = CHR ''}'' then 0 < d \<and> depth_scan cs (d - 1)
      else depth_scan cs d)"

definition balanced :: "string \<Rightarrow> bool" where
  "balanced pattern = depth_scan pattern 0"

text \<open>
  A message source to evaluate the operations on. Its loader knows a file for \<open>en-US\<close> and
  a file for \<open>en\<close>, fails on the file for \<open>de\<close> and finds no other file; its world
  is the number of files it has been asked for.
\<close>

definition example_load :: "string \<Rightarrow> nat \<Rightarrow> (TMsgs \<times> string option) \<times> nat" where
  "example_load filename w =
     (if filename = ''msgs/en-US/'' then ((Some [(''hello'', ''Howdy''), (''empty'', [])], None), w + 1)
      else if filename = ''msgs/en/''
      then ((Some [(''hello'', ''Hello''), (''bye'', ''Goodbye''), (''empty'', ''filled'')], None), w + 1)
      else if filename = ''msgs/de/'' then ((None, Some ''permission denied''), w + 1)
      else ((None, None), w + 1))"

definition example_source :: "nat MessageSource" where
  "example_source =
     \<lparr>SourceLang = ''en'', ForceTranslation = False, BasePath = ''msgs'',
      FileMap = Map.empty, fileSuffix = ''json'', loadFunc = example_load,
      messages = Some Map.empty\<rparr>"

definition example_env :: "nat env" where
  "example_env = \<lparr>world = 0, loaded = []\<rparr>"

text \<open>The same source with an override for the suffix \<open>b\<close> and with a table in its cache
  under the key \<open>a/en/b\<close>.\<close>

definition example_cached :: "nat MessageSource" where
  "example_cached =
     example_source\<lparr>FileMap := [''b'' \<mapsto> ''x''],
                    messages := Some [''a/en/b'' \<mapsto> Some [(''hello'', ''Hi'')]]\<rparr>"

section \<open>Facts about the string operations\<close>

lemma Index_none: "Index s c = - 1 \<longleftrightarrow> c \<notin> set s"
  by (simp add: Index_def)

lemma takeWhile_neq_shorter: "c \<in> set s \<Longrightarrow> length (takeWhile (\<lambda>x. x \<noteq> c) s) < length s"
  by (induction s) auto

lemma Index_found:
  assumes "c \<in> set s"
  shows "0 \<le> Index s c" and "Index s c < int (length s)" and "s ! nat (Index s c) = c"
proof -
  let ?k = "length (takeWhile (\<lambda>x. x \<noteq> c) s)"
  have k: "?k < length s" using assms by (rule takeWhile_neq_shorter)
  have "\<not> (s ! ?k \<noteq> c)" using k by (rule nth_length_takeWhile)
  then show "0 \<le> Index s c" "Index s c < int (length s)" "s ! nat (Index s c) = c"
    using assms k by (simp_all add: Index_def)
qed

lemma Index_drop_found:
  assumes "c \<in> set (drop n s)"
  shows "0 \<le> Index (drop n s) c" and "int n + Index (drop n s) c < int (length s)"
    and "s ! (n + nat (Index (drop n s) c)) = c"
proof -
  note f = Index_found [OF assms]
  have n: "n \<le> length s" using assms by (cases "n \<le> length s") auto
  show "0 \<le> Index (drop n s) c" by (rule f(1))
  show "int n + Index (drop n s) c < int (length s)" using f(2) n by simp
  have "n + nat (Index (drop n s) c) < length s" using f(1,2) n by simp
  then show "s ! (n + nat (Index (drop n s) c)) = c" using f(3) n by simp
qed

lemma nth_in_drop: "m \<le> i \<Longrightarrow> i < length s \<Longrightarrow> s ! i \<in> set (drop m s)"
  by (auto simp add: in_set_conv_nth intro!: exI [of _ "i - m"])

lemma slice_tail:
  "0 \<le> lo \<Longrightarrow> lo \<le> int (length s) \<Longrightarrow>
   slice s lo (int (length s)) = Some (drop (nat lo) s)"
  by (simp add: slice_def)

lemma later_occurrence:
  assumes c: "c \<in> set (drop n s)" and n: "0 < n"
  shows "c \<in> set (drop (nat (Index (drop n s) c + 1)) s)"
proof -
  note f = Index_drop_found [OF c]
  let ?r = "Index (drop n s) c"
  have "s ! (n + nat ?r) \<in> set (drop (nat (?r + 1)) s)"
    using f(1,2) n by (intro nth_in_drop) auto
  then show ?thesis using f(3) by simp
qed

lemma ordered_occurrence:
  assumes c: "c \<in> set s" and r: "r < Index s c"
  shows "c \<in> set (drop (nat (r + 1)) s)"
proof -
  note f = Index_found [OF c]
  have "s ! nat (Index s c) \<in> set (drop (nat (r + 1)) s)"
    using f(1,2) r by (intro nth_in_drop) auto
  then show ?thesis using f(3) by simp
qed

lemma Index_distinct:
  assumes "c \<in> set s" and "d \<in> set s" and "c \<noteq> d"
  shows "Index s c \<noteq> Index s d"
  using Index_found(3) [OF assms(1)] Index_found(3) [OF assms(2)] assms(3) by auto

lemma next_pos:
  assumes ob: "CHR ''{'' \<in> set pattern"
    and lo: "- 1 \<le> pos" and hi: "pos < int (length pattern)"
    and rest: "rest = drop (nat (pos + 1)) pattern"
    and some: "\<not> (Index rest CHR ''{'' = - 1 \<and> Index rest CHR ''}'' = - 1)"
    and opn: "opn = (if Index rest CHR ''{'' = - 1 then int (length pattern) else Index rest CHR ''{'')"
    and closing: "closing = Index rest CHR ''}''"
    and pos': "pos' = (if closing > opn then opn else closing)"
  shows "- 1 \<le> pos' \<and> pos' < int (length pattern) \<and>
         set (drop (nat (pos' + 1)) pattern) \<inter> {CHR ''{'', CHR ''}''} \<noteq> {}"
proof (cases "pos = - 1")
  case True
  then have r: "rest = pattern" using rest by simp
  note o = Index_found [OF ob]
  have opn': "opn = Index pattern CHR ''{''" using opn r ob by (simp add: Index_none)
  show ?thesis
  proof (cases "CHR ''}'' \<in> set pattern")
    case False
    then have "closing = - 1" using closing r by (simp add: Index_none)
    then have "pos' = - 1" using pos' opn' o(1) by simp
    then show ?thesis using ob hi lo by auto
  next
    case cb: True
    note c = Index_found [OF cb]
    have ne: "Index pattern CHR ''{'' \<noteq> Index pattern CHR ''}''"
      using Index_distinct [OF ob cb] by simp
    show ?thesis
    proof (cases "closing > opn")
      case True
      then have p: "pos' = Index pattern CHR ''{''" using pos' opn' by simp
      have "CHR ''}'' \<in> set (drop (nat (pos' + 1)) pattern)"
        using True p opn' closing r by (intro ordered_occurrence [OF cb]) simp
      then show ?thesis using p o by auto
    next
      case False
      then have p: "pos' = Index pattern CHR ''}''" using pos' closing r by simp
      have "pos' < Index pattern CHR ''{''" using False p ne opn' closing r by simp
      then have "CHR ''{'' \<in> set (drop (nat (pos' + 1)) pattern)"
        by (rule ordered_occurrence [OF ob])
      then show ?thesis using p c by auto
    qed
  qed
next
  case False
  then have n: "0 < nat (pos + 1)" using lo by simp
  have len: "int (length rest) \<le> int (length pattern)" using rest by simp
  show ?thesis
  proof (cases "closing > opn")
    case True
    have cb: "CHR ''}'' \<in> set rest"
    proof (rule ccontr)
      assume "CHR ''}'' \<notin> set rest"
      then have "closing = - 1" using closing by (simp add: Index_none)
      moreover have "0 \<le> opn" using opn Index_found(1) [of "CHR ''{''" rest]
        by (cases "CHR ''{'' \<in> set rest") (auto simp add: Index_none)
      ultimately show False using True by simp
    qed
    have ob': "CHR ''{'' \<in> set rest"
    proof (rule ccontr)
      assume "CHR ''{'' \<notin> set rest"
      then have "opn = int (length pattern)" using opn by (simp add: Index_none)
      then show False using True closing Index_found(2) [OF cb] len by simp
    qed
    have p: "pos' = Index rest CHR ''{''" using True pos' opn ob' by (simp add: Index_none)
    have "CHR ''{'' \<in> set (drop (nat (pos' + 1)) pattern)"
      unfolding p rest using ob' n unfolding rest by (rule later_occurrence)
    then show ?thesis using p Index_found(1,2) [OF ob'] len by auto
  next
    case nt: False
    then have p: "pos' = Index rest CHR ''}''" using pos' closing by simp
    show ?thesis
    proof (cases "CHR ''}'' \<in> set rest")
      case True
      have "CHR ''}'' \<in> set (drop (nat (pos' + 1)) pattern)"
        unfolding p rest using True n unfolding rest by (rule later_occurrence)
      then show ?thesis using p Index_found(1,2) [OF True] len by auto
    next
      case False
      then have "pos' = - 1" using p by (simp add: Index_none)
      then show ?thesis using ob hi lo by auto
    qed
  qed
qed

lemma loop_body_Again_inv:
  assumes inv: "scan_inv pattern pos depth"
    and again: "loop_body pattern pos start depth tokens = Again pos' start' depth' tokens'"
  shows "scan_inv pattern pos' depth'"
proof -
  from inv have ob: "CHR ''{'' \<in> set pattern" and lo: "- 1 \<le> pos"
    and hi: "pos < int (length pattern)" by (simp_all add: scan_inv_def)
  define rest where "rest = drop (nat (pos + 1)) pattern"
  define opn where "opn = (if Index rest CHR ''{'' = - 1 then int (length pattern) else Index rest CHR ''{'')"
  define closing where "closing = Index rest CHR ''}''"
  have sl: "slice pattern (pos + 1) (int (length pattern)) = Some rest"
    using lo hi by (simp add: slice_tail rest_def)
  from again have some: "\<not> (Index rest CHR ''{'' = - 1 \<and> Index rest CHR ''}'' = - 1)"
    using hi by (auto simp add: loop_body_def sl Let_def)
  from again have "pos' = (if closing > opn then opn else closing)"
    using hi some
    by (auto simp add: loop_body_def sl Let_def opn_def closing_def
        split: if_splits option.splits)
  from next_pos [OF ob lo hi rest_def some opn_def closing_def this]
  show ?thesis using ob by (simp add: scan_inv_def)
qed

lemma loop_body_Break_inv:
  assumes inv: "scan_inv pattern pos depth"
    and brk: "loop_body pattern pos start depth tokens = Break d"
  shows "d \<noteq> 0"
proof -
  from inv have lo: "- 1 \<le> pos" and hi: "pos < int (length pattern)"
    and d: "depth \<noteq> 0 \<or> set (drop (nat (pos + 1)) pattern) \<inter> {CHR ''{'', CHR ''}''} \<noteq> {}"
    by (simp_all add: scan_inv_def)
  have sl: "slice pattern (pos + 1) (int (length pattern)) = Some (drop (nat (pos + 1)) pattern)"
    using lo hi by (simp add: slice_tail)
  from brk show ?thesis
    using hi d
    by (auto simp add: loop_body_def sl Let_def Index_none split: if_splits option.splits)
qed

lemma scan_no_Segments:
  assumes run: "scan pattern pos start depth tokens = Some r"
  shows "scan_inv pattern pos depth \<longrightarrow> (\<forall>ts. r \<noteq> Segments ts)"
proof (rule scan.raw_induct
    [where P = "\<lambda>pattern pos start depth tokens r.
                  scan_inv pattern pos depth \<longrightarrow> (\<forall>ts. r \<noteq> Segments ts)", OF _ run])
  fix f pattern pos start depth tokens r
  assume IH: "\<And>pattern pos start depth tokens r.
      f pattern pos start depth tokens = Some r \<Longrightarrow>
      scan_inv pattern pos depth \<longrightarrow> (\<forall>ts. r \<noteq> Segments ts)"
    and body: "(case loop_body pattern pos start depth tokens of
        Break d \<Rightarrow> Some (finish d tokens)
      | Panics \<Rightarrow> Some SlicePanic
      | Again pos' start' depth' tokens' \<Rightarrow> f pattern pos' start' depth' tokens') = Some r"
  show "scan_inv pattern pos depth \<longrightarrow> (\<forall>ts. r \<noteq> Segments ts)"
  proof
    assume inv: "scan_inv pattern pos depth"
    show "\<forall>ts. r \<noteq> Segments ts"
    proof (cases "loop_body pattern pos start depth tokens")
      case (Break d)
      have "d \<noteq> 0" by (rule loop_body_Break_inv [OF inv Break])
      then show ?thesis using body Break by (auto simp add: finish_def)
    next
      case Panics
      then show ?thesis using body by auto
    next
      case (Again pos' start' depth' tokens')
      have i: "scan_inv pattern pos' depth'" by (rule loop_body_Again_inv [OF inv Again])
      have "f pattern pos' start' depth' tokens' = Some r"
        using body Again by simp
      from IH [OF this] i show ?thesis by simp
    qed
  qed
qed

lemma tokenizePattern_no_Segments:
  assumes "CHR ''{'' \<in> set pattern"
  shows "tokenizePattern pattern \<noteq> Some (Segments ts)"
proof
  assume t: "tokenizePattern pattern = Some (Segments ts)"
  note f = Index_found [OF assms]
  have "slice pattern 0 (Index pattern CHR ''{'') \<noteq> None" using f by (simp add: slice_def)
  then obtain t0 where t0: "slice pattern 0 (Index pattern CHR ''{'') = Some t0" by blast
  have "scan pattern (Index pattern CHR ''{'') (Index pattern CHR ''{'') 1 [t0] = Some (Segments ts)"
    using t f assms by (simp add: tokenizePattern_def Let_def t0 Index_none)
  moreover have "scan_inv pattern (Index pattern CHR ''{'') 1"
    using f assms by (simp add: scan_inv_def)
  ultimately show False using scan_no_Segments [of pattern _ _ 1 "[t0]" "Segments ts"] by simp
qed

lemma wrap_measure:
  fixes d :: "64 word"
  assumes "d + 1 \<noteq> 0"
  shows "unat (- (d + 1) - 1) < unat (- d - 1)"
proof -
  have x: "- d - 1 \<noteq> 0"
  proof
    assume "- d - 1 = 0"
    moreover have "d + 1 = - (- d - 1)" by simp
    ultimately have "d + 1 = 0" by (simp only: neg_0_equal_iff_equal minus_zero)
    then show False using assms by simp
  qed
  have "- (d + 1) - 1 = (- d - 1) - 1" by simp
  moreover have "unat ((- d - 1) - 1) = unat (- d - 1) - 1" using x by (rule unat_minus_one)
  moreover have "unat (- d - 1) \<noteq> 0" using x by (simp add: unat_eq_zero)
  ultimately show ?thesis by simp
qed

section \<open>The loop on particular patterns\<close>

text \<open>On \<open>"{}"\<close> with the cursor at 0 a pass of the loop leaves the cursor at 0, so a run
  of the loop from there has no result.\<close>

lemma loop_body_empty_placeholder:
  "\<exists>start' tokens'. loop_body ''{}'' 0 start depth tokens = Again 0 start' (depth - 1) tokens'"
  by (simp add: loop_body_def slice_def Index_def Let_def)

lemma scan_empty_placeholder:
  assumes run: "scan pattern pos start depth tokens = Some r"
  shows "\<not> (pattern = ''{}'' \<and> pos = 0)"
proof (rule scan.raw_induct
    [where P = "\<lambda>pattern pos start depth tokens r. \<not> (pattern = ''{}'' \<and> pos = 0)", OF _ run])
  fix f pattern pos start depth tokens r
  assume IH: "\<And>pattern pos start depth tokens r.
      f pattern pos start depth tokens = Some r \<Longrightarrow> \<not> (pattern = ''{}'' \<and> pos = 0)"
    and body: "(case loop_body pattern pos start depth tokens of
        Break d \<Rightarrow> Some (finish d tokens)
      | Panics \<Rightarrow> Some SlicePanic
      | Again pos' start' depth' tokens' \<Rightarrow> f pattern pos' start' depth' tokens') = Some r"
  show "\<not> (pattern = ''{}'' \<and> pos = 0)"
  proof
    assume p: "pattern = ''{}'' \<and> pos = 0"
    obtain start' tokens' where
      "loop_body pattern pos start depth tokens = Again 0 start' (depth - 1) tokens'"
      using loop_body_empty_placeholder [of start depth tokens] p by auto
    then have "f ''{}'' 0 start' (depth - 1) tokens' = Some r" using body p by simp
    from IH [OF this] show False by simp
  qed
qed

text \<open>
  Two cursor positions, each of which sends the loop to the other with the depth one higher,
  until the depth wraps round to zero and the slice expression panics. The induction is on the
  number of passes that are left until then.
\<close>

lemma open_cycle:
  assumes ab: "\<And>s d t. loop_body p a s d t = (if d + 1 = 0 then Panics else Again b s (d + 1) t)"
    and ba: "\<And>s d t. loop_body p b s d t = (if d + 1 = 0 then Panics else Again a s (d + 1) t)"
  shows "scan p a s d t = Some SlicePanic \<and> scan p b s d t = Some SlicePanic"
proof (induction "unat (- d - 1)" arbitrary: d rule: less_induct)
  case less
  show ?case
  proof (cases "d + 1 = 0")
    case True
    have "scan p a s d t = Some SlicePanic" by (subst scan.simps) (simp add: ab True)
    moreover have "scan p b s d t = Some SlicePanic" by (subst scan.simps) (simp add: ba True)
    ultimately show ?thesis by simp
  next
    case False
    then have "unat (- (d + 1) - 1) < unat (- d - 1)" by (rule wrap_measure)
    note IH = less [OF this]
    have "scan p a s d t = scan p b s (d + 1) t" by (subst scan.simps) (simp add: ab False)
    moreover have "scan p b s d t = scan p a s (d + 1) t"
      by (subst scan.simps) (simp add: ba False)
    ultimately show ?thesis using IH by simp
  qed
qed

text \<open>The passes of the loop on the two patterns of the specification.\<close>

lemma single_level_first_pass:
  "loop_body ''Hello, {name}!'' 7 7 1 t = Again 4 14 0 (t @ ['', {name}!''])"
  by (simp add: loop_body_def slice_def Index_def Let_def)

lemma single_level_at_4:
  "loop_body ''Hello, {name}!'' 4 s d t = (if d + 1 = 0 then Panics else Again 2 s (d + 1) t)"
  by (simp add: loop_body_def slice_def Index_def Let_def)

lemma single_level_at_2:
  "loop_body ''Hello, {name}!'' 2 s d t = (if d + 1 = 0 then Panics else Again 4 s (d + 1) t)"
  by (simp add: loop_body_def slice_def Index_def Let_def)

lemma nested_at_0:
  "loop_body ''{a{b}c}'' 0 s d t = (if d + 1 = 0 then Panics else Again 1 s (d + 1) t)"
  by (simp add: loop_body_def slice_def Index_def Let_def)

lemma nested_at_1:
  "loop_body ''{a{b}c}'' 1 s d t = (if d + 1 = 0 then Panics else Again 0 s (d + 1) t)"
  by (simp add: loop_body_def slice_def Index_def Let_def)

lemma tokenizePattern_single_level: "tokenizePattern ''Hello, {name}!'' = Some SlicePanic"
proof -
  have "tokenizePattern ''Hello, {name}!'' = scan ''Hello, {name}!'' 7 7 1 [''Hello, '']"
    by (simp add: tokenizePattern_def Index_def slice_def)
  also have "\<dots> = scan ''Hello, {name}!'' 4 14 0 [''Hello, '', '', {name}!'']"
    by (subst scan.simps) (simp add: single_level_first_pass)
  also have "\<dots> = Some SlicePanic"
    using open_cycle [of "''Hello, {name}!''" 4 2, OF single_level_at_4 single_level_at_2] by blast
  finally show ?thesis .
qed

lemma tokenizePattern_nested: "tokenizePattern ''{a{b}c}'' = Some SlicePanic"
proof -
  have "tokenizePattern ''{a{b}c}'' = scan ''{a{b}c}'' 0 0 1 [[]]"
    by (simp add: tokenizePattern_def Index_def slice_def)
  also have "\<dots> = Some SlicePanic"
    using open_cycle [of "''{a{b}c}''" 0 1, OF nested_at_0 nested_at_1] by blast
  finally show ?thesis .
qed

section \<open>Patterns without a closing brace\<close>

lemma tokenizePattern_no_open:
  "CHR ''{'' \<notin> set pattern \<Longrightarrow> tokenizePattern pattern = Some (Segments [pattern])"
  by (simp add: tokenizePattern_def Index_def)

lemma loop_body_no_closing_restart:
  assumes ob: "CHR ''{'' \<in> set pattern" and nc: "CHR ''}'' \<notin> set pattern"
  shows "loop_body pattern (- 1) start 0 tokens = Break (- 1)"
proof -
  note f = Index_found [OF ob]
  have "slice pattern 0 (int (length pattern)) = Some pattern" by (simp add: slice_def)
  moreover have "Index pattern CHR ''}'' = - 1" using nc by (simp add: Index_none)
  moreover have "Index pattern CHR ''{'' \<noteq> - 1" using f(1) by simp
  ultimately show ?thesis using f(1) by (simp add: loop_body_def Let_def)
qed

lemma loop_body_no_closing_first:
  assumes ob: "CHR ''{'' \<in> set pattern" and nc: "CHR ''}'' \<notin> set pattern"
  shows "loop_body pattern (Index pattern CHR ''{'') start 1 tokens = Break 1 \<or>
         (\<exists>start' tokens'. loop_body pattern (Index pattern CHR ''{'') start 1 tokens
            = Again (- 1) start' 0 tokens')"
proof -
  note f = Index_found [OF ob]
  define pos where "pos = Index pattern CHR ''{''"
  define rest where "rest = drop (nat (pos + 1)) pattern"
  have lo: "0 \<le> pos" and hi: "pos < int (length pattern)" using f(1,2) by (simp_all add: pos_def)
  have sl: "slice pattern (pos + 1) (int (length pattern)) = Some rest"
    using lo hi by (simp add: slice_tail rest_def)
  have c: "Index rest CHR ''}'' = - 1"
    using nc by (auto simp add: Index_none rest_def dest: in_set_dropD)
  show ?thesis
  proof (cases "CHR ''{'' \<in> set rest")
    case False
    then have "Index rest CHR ''{'' = - 1" by (simp add: Index_none)
    then have "loop_body pattern pos start 1 tokens = Break 1"
      using hi c by (simp add: loop_body_def Let_def sl)
    then show ?thesis unfolding pos_def by simp
  next
    case True
    note g = Index_found [OF True]
    have "int (length rest) \<le> int (length pattern)" by (simp add: rest_def)
    then have "slice pattern 0 (Index rest CHR ''{'') \<noteq> None" using g(1,2) by (simp add: slice_def)
    then obtain t where t: "slice pattern 0 (Index rest CHR ''{'') = Some t" by blast
    have "loop_body pattern pos start 1 tokens = Again (- 1) (Index rest CHR ''{'') 0 (tokens @ [t])"
      using hi c g(1) t by (simp add: loop_body_def Let_def sl)
    then show ?thesis unfolding pos_def by simp
  qed
qed

lemma tokenizePattern_never_closed:
  assumes ob: "CHR ''{'' \<in> set pattern" and nc: "CHR ''}'' \<notin> set pattern"
  shows "tokenizePattern pattern = Some NilSlice"
proof -
  note f = Index_found [OF ob]
  define pos where "pos = Index pattern CHR ''{''"
  have "slice pattern 0 pos \<noteq> None" using f by (simp add: slice_def pos_def)
  then obtain t0 where t0: "slice pattern 0 pos = Some t0" by blast
  have tp: "tokenizePattern pattern = scan pattern pos pos 1 [t0]"
    using f(1) t0 by (simp add: tokenizePattern_def Let_def pos_def [symmetric])
  from loop_body_no_closing_first [OF ob nc, of pos "[t0]"]
  show ?thesis
  proof
    assume "loop_body pattern (Index pattern CHR ''{'') pos 1 [t0] = Break 1"
    then have "scan pattern pos pos 1 [t0] = Some NilSlice"
      by (subst scan.simps) (simp add: pos_def finish_def)
    then show ?thesis using tp by simp
  next
    assume "\<exists>start' tokens'. loop_body pattern (Index pattern CHR ''{'') pos 1 [t0]
            = Again (- 1) start' 0 tokens'"
    then obtain start' tokens' where
      a: "loop_body pattern pos pos 1 [t0] = Again (- 1) start' 0 tokens'"
      by (auto simp add: pos_def)
    have "scan pattern pos pos 1 [t0] = scan pattern (- 1) start' 0 tokens'"
      by (subst scan.simps) (simp add: a)
    also have "\<dots> = Some NilSlice"
      by (subst scan.simps)
        (simp add: loop_body_no_closing_restart [OF ob nc] finish_def)
    finally show ?thesis using tp by simp
  qed
qed

text \<open>When segments are returned, the pattern has no opening brace and is the only
  segment.\<close>

lemma tokenizePattern_Segments_whole:
  "tokenizePattern pattern = Some (Segments tokens) \<longleftrightarrow>
     CHR ''{'' \<notin> set pattern \<and> tokens = [pattern]"
proof (cases "CHR ''{'' \<in> set pattern")
  case True
  from tokenizePattern_no_Segments [OF this, of tokens] True show ?thesis by simp
next
  case False
  from tokenizePattern_no_open [OF this] False show ?thesis by auto
qed

section \<open>The claims about the tokenizer\<close>

text \<open>
  C1. The specification wants \<open>"Hello, {name}!"\<close> tokenized to
  \<open>["Hello, ", "name", "!"]\<close> and \<open>"{a{b}c}"\<close> to \<open>["", "a{b}c", ""]\<close>.
  The code does neither. \<open>strings.Index\<close> is applied to the rest of the pattern behind the
  cursor, and the index it returns, which counts from the start of that rest, is stored as
  the new cursor. On both patterns the cursor then alternates between two offsets and the depth
  grows by one in each pass; after \<open>2^64 - 1\<close> passes the depth has wrapped round to zero
  and the slice expression \<open>pattern[start:open]\<close> panics, its lower bound above its upper
  bound.
\<close>

theorem tokenizePattern_examples_panic:
  "tokenizePattern ''Hello, {name}!'' = Some SlicePanic \<and>
   tokenizePattern ''Hello, {name}!'' \<noteq> Some (Segments [''Hello, '', ''name'', ''!'']) \<and>
   tokenizePattern ''{a{b}c}'' = Some SlicePanic \<and>
   tokenizePattern ''{a{b}c}'' \<noteq> Some (Segments [[], ''a{b}c'', []])"
  by (simp add: tokenizePattern_single_level tokenizePattern_nested)

text \<open>
  C2. The loop does not end on every pattern. On \<open>"{}"\<close> each pass finds the closing brace
  at index 0 of the rest behind the cursor and sets the cursor to 0, where it already was; the
  depth goes down by one in each pass and no \<open>break\<close> is ever reached.
\<close>

theorem tokenizePattern_empty_placeholder_diverges: "tokenizePattern ''{}'' = None"
proof (cases "tokenizePattern ''{}''")
  case None then show ?thesis .
next
  case (Some r)
  then have "scan ''{}'' 0 0 1 [[]] = Some r"
    by (simp add: tokenizePattern_def Index_def slice_def)
  from scan_empty_placeholder [OF this] show ?thesis by simp
qed


text \<open>
  C4, as the specification has it, fails: the pattern \<open>"a}"\<close> is unbalanced, and it is
  tokenized to the one segment \<open>"a}"\<close> and formatted without an error.
\<close>

theorem tokenizePattern_unmatched_closing_accepted:
  "tokenizePattern ''a}'' = Some (Segments [''a}'']) \<and>
   format ''a}'' Map.empty ''en'' = Some (Inr ''a}'')"
  by (simp add: tokenizePattern_def Index_def format_def)

text \<open>
  C4, as the code has it. A pattern without an opening brace is returned whole, as its only
  segment, whatever closing braces it has, and \<open>format\<close> succeeds on it. A pattern with
  an opening brace and no closing brace at all gets \<open>nil\<close>, and \<open>format\<close> the error
  "message pattern is invalid". And for no unbalanced pattern with an opening brace are
  segments returned, by \<open>tokenizePattern\<close> or through \<open>format\<close>.
\<close>

theorem tokenizePattern_failure:
  "(CHR ''{'' \<notin> set pattern \<longrightarrow>
      tokenizePattern pattern = Some (Segments [pattern]) \<and>
      format pattern params lang = Some (Inr pattern)) \<and>
   (CHR ''{'' \<in> set pattern \<and> CHR ''}'' \<notin> set pattern \<longrightarrow>
      tokenizePattern pattern = Some NilSlice \<and>
      format pattern params lang = Some (Inl (Err ''message pattern is invalid''))) \<and>
   (CHR ''{'' \<in> set pattern \<and> \<not> balanced pattern \<longrightarrow>
      (\<forall>tokens. tokenizePattern pattern \<noteq> Some (Segments tokens)) \<and>
      (\<forall>s. format pattern params lang \<noteq> Some (Inr s)))"
proof (intro conjI impI)
  assume "CHR ''{'' \<notin> set pattern"
  from tokenizePattern_no_open [OF this]
  show "tokenizePattern pattern = Some (Segments [pattern])"
    and "format pattern params lang = Some (Inr pattern)"
    by (simp_all add: format_def)
next
  assume "CHR ''{'' \<in> set pattern \<and> CHR ''}'' \<notin> set pattern"
  then have "tokenizePattern pattern = Some NilSlice"
    using tokenizePattern_never_closed by blast
  then show "tokenizePattern pattern = Some NilSlice"
    and "format pattern params lang = Some (Inl (Err ''message pattern is invalid''))"
    by (simp_all add: format_def)
next
  assume "CHR ''{'' \<in> set pattern \<and> \<not> balanced pattern"
  then have n: "\<And>tokens. tokenizePattern pattern \<noteq> Some (Segments tokens)"
    using tokenizePattern_no_Segments by blast
  then show "\<forall>tokens. tokenizePattern pattern \<noteq> Some (Segments tokens)" by blast
  show "\<forall>s. format pattern params lang \<noteq> Some (Inr s)"
    using n by (auto simp add: format_def split: option.splits tokens_result.splits)
qed

theorem tokenizePattern_failure_witness:
  "CHR ''{'' \<notin> set ''a}'' \<and> tokenizePattern ''a}'' = Some (Segments [''a}'']) \<and>
   CHR ''{'' \<in> set ''a{b'' \<and> CHR ''}'' \<notin> set ''a{b'' \<and> tokenizePattern ''a{b'' = Some NilSlice \<and>
   format ''a{b'' Map.empty ''en'' = Some (Inl (Err ''message pattern is invalid'')) \<and>
   CHR ''{'' \<in> set ''{a{b}'' \<and> \<not> balanced ''{a{b}'' \<and>
   tokenizePattern ''{a{b}'' \<noteq> Some (Segments [[], ''a{b'']) "
  using tokenizePattern_failure [of "''a}''" Map.empty "''en''"] tokenizePattern_failure [of "''a{b''" Map.empty "''en''"]
    tokenizePattern_failure [of "''{a{b}''" Map.empty "''en''"]
  by (simp add: balanced_def)

section \<open>Categories\<close>

lemma Split_nonempty: "Split s c \<noteq> []"
  by (induction s) auto

lemma Split_unfold:
  "Split s c = takeWhile (\<lambda>x. x \<noteq> c) s #
     (if c \<in> set s then Split (tl (dropWhile (\<lambda>x. x \<noteq> c) s)) c else [])"
proof (induction s)
  case Nil
  show ?case by simp
next
  case (Cons x xs)
  show ?case
  proof (cases "x = c")
    case True
    then show ?thesis by simp
  next
    case False
    then show ?thesis using Cons by simp
  qed
qed

lemma Split_first: "Split s c ! 0 = takeWhile (\<lambda>x. x \<noteq> c) s"
  by (subst Split_unfold) simp

lemma Split_second:
  assumes "c \<in> set s"
  shows "Split s c ! Suc 0 = takeWhile (\<lambda>x. x \<noteq> c) (tl (dropWhile (\<lambda>x. x \<noteq> c) s))"
proof -
  have "Split s c ! Suc 0 = Split (tl (dropWhile (\<lambda>x. x \<noteq> c) s)) c ! 0"
    using assms by (subst Split_unfold) simp
  then show ?thesis by (simp only: Split_first)
qed

lemma Split_length: "2 \<le> length (Split s c) \<longleftrightarrow> c \<in> set s"
proof -
  have "Split (tl (dropWhile (\<lambda>x. x \<noteq> c) s)) c \<noteq> []" by (rule Split_nonempty)
  then have "Suc 0 \<le> length (Split (tl (dropWhile (\<lambda>x. x \<noteq> c) s)) c)"
    by (cases "Split (tl (dropWhile (\<lambda>x. x \<noteq> c) s)) c") simp_all
  then show ?thesis by (subst Split_unfold) simp
qed

lemma cacheKey_dotted:
  assumes "CHR ''.'' \<in> set category"
  shows "cacheKey category lang =
     Some (takeWhile (\<lambda>x. x \<noteq> CHR ''.'') category @ ''/'' @ lang @ ''/'' @
           takeWhile (\<lambda>x. x \<noteq> CHR ''.'') (tl (dropWhile (\<lambda>x. x \<noteq> CHR ''.'') category)))"
proof -
  have "\<not> length (Split category CHR ''.'') < 2"
    using assms Split_length [of category "CHR ''.''"] by simp
  then show ?thesis
    by (simp add: cacheKey_def Let_def Split_first Split_second [OF assms])
qed

lemma cacheKey_undotted: "CHR ''.'' \<notin> set category \<Longrightarrow> cacheKey category lang = None"
  using Split_length [of category "CHR ''.''"] by (simp add: cacheKey_def Let_def)

lemma GetMsgFilePath_dotted:
  assumes "CHR ''.'' \<in> set category"
  shows "GetMsgFilePath ms category lang =
     (let suffix = takeWhile (\<lambda>x. x \<noteq> CHR ''.'') (tl (dropWhile (\<lambda>x. x \<noteq> CHR ''.'') category));
          path = BasePath ms @ ''/'' @ lang @ ''/''
      in case FileMap ms suffix of
           None \<Rightarrow> Inr path
         | Some v \<Rightarrow> Inr (path @ Replace suffix (CHR 0x5C) CHR ''/'' @
              (if fileSuffix ms \<noteq> [] then ''.'' @ fileSuffix ms else [])))"
proof -
  have "\<not> length (Split category CHR ''.'') < 2"
    using assms Split_length [of category "CHR ''.''"] by simp
  then show ?thesis
    by (simp add: GetMsgFilePath_def Let_def Split_second [OF assms] split: option.splits)
qed

lemma GetMsgFilePath_undotted:
  "CHR ''.'' \<notin> set category \<Longrightarrow> GetMsgFilePath ms category lang = Inl Panic"
  using Split_length [of category "CHR ''.''"] by (simp add: GetMsgFilePath_def Let_def)

section \<open>The claim about the file path\<close>

text \<open>
  C5. The specification wants the override of \<open>FileMap\<close> used when there is one for the
  suffix, and the suffix with the extension otherwise. The test of the code is the other way
  round (\<open>!ok\<close>): with an override for \<open>msg\<close> the path is built from the suffix and
  the extension and the override is not used, and without an override nothing at all is
  appended to the directory.
\<close>

theorem GetMsgFilePath_override_unused:
  "GetMsgFilePath (example_source\<lparr>FileMap := [''msg'' \<mapsto> ''custom.json'']\<rparr>) ''app.msg'' ''en''
     = Inr ''msgs/en/msg.json'' \<and>
   GetMsgFilePath example_source ''app.msg'' ''en'' = Inr ''msgs/en/''"
  by (simp add: GetMsgFilePath_def example_source_def Replace_def)

section \<open>The cache, the loader and the merge\<close>

lemma store_allocated:
  "messages ms = Some c \<Longrightarrow> store ms key val = Some (ms\<lparr>messages := Some (c(key \<mapsto> val))\<rparr>)"
  by (simp add: store_def)

lemma cached_allocated: "messages ms = Some c \<Longrightarrow> cached ms key = c key"
  by (simp add: cached_def)

lemma answer_missing:
  assumes alloc: "messages ms = Some c" and hit: "c key = Some tbl"
    and missing: "lookup tbl message = None \<or> lookup tbl message = Some []"
  shows "answer ms key message e
     = (Inr [], ms\<lparr>messages := Some (c(key \<mapsto> Some [(message, [])]))\<rparr>, e)"
  using missing
  by (auto simp add: answer_def cached_allocated [OF alloc] hit store_allocated [OF alloc])

lemma answer_found:
  assumes alloc: "messages ms = Some c" and hit: "c key = Some tbl"
    and found: "lookup tbl message = Some v" and v: "v \<noteq> []"
  shows "answer ms key message e = (Inr v, ms, e)"
  by (simp add: answer_def cached_allocated [OF alloc] hit found v)

lemma LoadFallbackMsgs_loaded:
  "\<exists>more. loaded (snd (LoadFallbackMsgs ms category fallbackLang msgs original e)) = loaded e @ more"
  by (auto simp add: LoadFallbackMsgs_def call_loadFunc_def split: sum.splits prod.splits option.splits)

lemma LoadMsgs_loaded:
  assumes "GetMsgFilePath ms category lang = Inr fname"
  shows "\<exists>more. loaded (snd (LoadMsgs ms category lang e)) = loaded e @ fname # more"
proof -
  obtain r w where lf: "loadFunc ms fname (world e) = (r, w)" by (cases "loadFunc ms fname (world e)")
  obtain msgs err where r: "r = (msgs, err)" by (cases r)
  let ?e' = "\<lparr>world = w, loaded = loaded e @ [fname]\<rparr>"
  have c: "call_loadFunc ms fname e = ((msgs, err), ?e')" by (simp add: call_loadFunc_def lf r)
  have fb: "\<And>l. \<exists>more. loaded (snd (LoadFallbackMsgs ms category l msgs fname ?e')) = loaded e @ fname # more"
    using LoadFallbackMsgs_loaded [of ms category _ msgs fname "?e'"] by simp
  show ?thesis
    using fb by (cases err) (simp_all add: LoadMsgs_def assms c Let_def)
qed

lemma answer_env: "snd (snd (answer ms key message e)) = e"
  by (simp add: answer_def split: option.splits)

lemma merge_entry_other:
  "k \<noteq> fst kv \<Longrightarrow> map_of (merge_entry fb kv m) k = map_of m k"
  by (cases kv) (simp add: merge_entry_def update_conv')

lemma merge_entry_same:
  assumes "map_of fb key = Some val"
  shows "map_of (merge_entry fb (key, val) m) key =
     (if val \<noteq> [] \<and> (map_of m key = None \<or> map_of m key = Some [])
      then Some val else map_of m key)"
  using assms by (auto simp add: merge_entry_def update_conv' read_key_def split: option.splits)

lemma fold_merge_entry:
  assumes "distinct (map fst xs)" and "\<And>key val. (key, val) \<in> set xs \<Longrightarrow> map_of fb key = Some val"
  shows "map_of (fold (merge_entry fb) xs m) k =
     (case map_of xs k of
        None \<Rightarrow> map_of m k
      | Some v \<Rightarrow>
          if v \<noteq> [] \<and> (map_of m k = None \<or> map_of m k = Some []) then Some v
          else map_of m k)"
  using assms
proof (induction xs arbitrary: m)
  case Nil
  show ?case by simp
next
  case (Cons kv xs)
  obtain key val where kv: "kv = (key, val)" by (cases kv)
  have d: "distinct (map fst xs)" and fresh: "key \<notin> fst ` set xs"
    using Cons.prems(1) by (simp_all add: kv)
  have fb: "map_of fb key = Some val" using Cons.prems(2) by (simp add: kv)
  have IH: "map_of (fold (merge_entry fb) xs m') k =
     (case map_of xs k of
        None \<Rightarrow> map_of m' k
      | Some v \<Rightarrow>
          if v \<noteq> [] \<and> (map_of m' k = None \<or> map_of m' k = Some []) then Some v
          else map_of m' k)" for m'
    using Cons.IH [OF d] Cons.prems(2) by simp
  show ?case
  proof (cases "k = key")
    case True
    have "map_of xs k = None" using fresh True by (simp add: map_of_eq_None_iff)
    then show ?thesis
      using IH [of "merge_entry fb (key, val) m"] merge_entry_same [OF fb, of m] True
      by (simp add: kv)
  next
    case False
    then show ?thesis
      using IH [of "merge_entry fb (key, val) m"] merge_entry_other [of k "(key, val)" fb m]
      by (auto simp add: kv split: option.split)
  qed
qed

lemma merge_table:
  assumes "distinct (map fst fb)"
  shows "map_of (fold (merge_entry fb) fb m) k =
     (case map_of fb k of
        None \<Rightarrow> map_of m k
      | Some v \<Rightarrow>
          if v \<noteq> [] \<and> (map_of m k = None \<or> map_of m k = Some []) then Some v
          else map_of m k)"
  using assms by (intro fold_merge_entry) simp_all

lemma merge_entry_distinct:
  "distinct (map fst m) \<Longrightarrow> distinct (map fst (merge_entry fb kv m))"
  by (cases kv) (simp add: merge_entry_def distinct_update)

lemma fold_merge_entry_distinct:
  "distinct (map fst m) \<Longrightarrow> distinct (map fst (fold (merge_entry fb) xs m))"
  by (induction xs arbitrary: m) (simp_all add: merge_entry_distinct)

lemma LoadFallbackMsgs_both:
  assumes fname: "GetMsgFilePath ms category fallbackLang = Inr fname"
    and load: "loadFunc ms fname (world e) = ((Some fallback, err), w)"
  shows "LoadFallbackMsgs ms category fallbackLang (Some primary) original e
     = (Inr (Some (fold (merge_entry fallback) fallback primary)),
        \<lparr>world = w, loaded = loaded e @ [fname]\<rparr>)"
  by (simp add: LoadFallbackMsgs_def fname call_loadFunc_def load)

lemma LoadFallbackMsgs_no_primary:
  assumes fname: "GetMsgFilePath ms category fallbackLang = Inr fname"
    and load: "loadFunc ms fname (world e) = ((Some fallback, err), w)"
  shows "LoadFallbackMsgs ms category fallbackLang None original e
     = (Inr (Some fallback), \<lparr>world = w, loaded = loaded e @ [fname]\<rparr>)"
  by (simp add: LoadFallbackMsgs_def fname call_loadFunc_def load)

lemma LoadFallbackMsgs_no_fallback:
  assumes fname: "GetMsgFilePath ms category fallbackLang = Inr fname"
    and load: "loadFunc ms fname (world e) = ((None, err), w)"
  shows "LoadFallbackMsgs ms category fallbackLang (Some primary) original e
     = (Inr (Some primary), \<lparr>world = w, loaded = loaded e @ [fname]\<rparr>)"
  by (simp add: LoadFallbackMsgs_def fname call_loadFunc_def load)

lemma LoadMsgs_specific:
  assumes specific: "lang \<noteq> take 2 lang" and src: "2 \<le> length (SourceLang ms)"
    and f1: "GetMsgFilePath ms category lang = Inr f1"
    and l1: "loadFunc ms f1 (world e) = ((msgs, None), w1)"
  shows "LoadMsgs ms category lang e
     = LoadFallbackMsgs ms category (take 2 lang) msgs f1 \<lparr>world = w1, loaded = loaded e @ [f1]\<rparr>"
proof -
  have "\<not> length lang < 2" using specific by auto
  then show ?thesis
    using specific src by (simp add: LoadMsgs_def f1 call_loadFunc_def l1 Let_def)
qed

lemma TranslateMsg_loaded_found:
  assumes alloc: "messages ms = Some c" and key: "cacheKey category lang = Some ck"
    and miss: "c ck = None" and load: "LoadMsgs ms category lang e = (Inr tbl, e')"
    and found: "lookup tbl message = Some x" and x: "x \<noteq> []"
  shows "TranslateMsg ms category message lang e
     = (Inr x, ms\<lparr>messages := Some (c(ck \<mapsto> tbl))\<rparr>, e')"
proof -
  have "answer (ms\<lparr>messages := Some (c(ck \<mapsto> tbl))\<rparr>) ck message e'
      = (Inr x, ms\<lparr>messages := Some (c(ck \<mapsto> tbl))\<rparr>, e')"
    by (rule answer_found [where c = "c(ck \<mapsto> tbl)" and tbl = tbl, OF _ _ found x]) simp_all
  then show ?thesis
    by (simp add: TranslateMsg_def key cached_allocated [OF alloc] miss load
        store_allocated [OF alloc])
qed

lemma LoadMsgs_specific_generic:
  assumes specific: "lang \<noteq> take 2 lang" and src: "2 \<le> length (SourceLang ms)"
    and f1: "GetMsgFilePath ms category lang = Inr f1"
    and f2: "GetMsgFilePath ms category (take 2 lang) = Inr f2"
    and l1: "loadFunc ms f1 (world e) = ((specific, None), w1)"
    and l2: "loadFunc ms f2 w1 = ((Some generic, err), w2)"
    and d: "distinct (map fst generic)"
  shows "\<exists>merged. LoadMsgs ms category lang e
           = (Inr merged, \<lparr>world = w2, loaded = loaded e @ [f1, f2]\<rparr>) \<and>
         (\<forall>k. lookup merged k =
            (if (\<exists>v. map_of generic k = Some v \<and> v \<noteq> []) \<and>
                (lookup specific k = None \<or> lookup specific k = Some [])
             then map_of generic k
             else if specific = None then map_of generic k else lookup specific k))"
proof (cases specific)
  case None
  have "LoadMsgs ms category lang e
      = (Inr (Some generic), \<lparr>world = w2, loaded = loaded e @ [f1, f2]\<rparr>)"
    using LoadFallbackMsgs_no_primary [OF f2, of "\<lparr>world = w1, loaded = loaded e @ [f1]\<rparr>" generic err w2 f1] l2
    by (simp add: LoadMsgs_specific [OF specific src f1 l1] None)
  then show ?thesis by (simp add: lookup_def None)
next
  case (Some primary)
  have "LoadMsgs ms category lang e
      = (Inr (Some (fold (merge_entry generic) generic primary)),
         \<lparr>world = w2, loaded = loaded e @ [f1, f2]\<rparr>)"
    using LoadFallbackMsgs_both [OF f2, of "\<lparr>world = w1, loaded = loaded e @ [f1]\<rparr>" generic err w2 primary f1] l2
    by (simp add: LoadMsgs_specific [OF specific src f1 l1] Some)
  then show ?thesis
    by (auto simp add: lookup_def Some merge_table [OF d] split: option.splits)
qed

lemma TranslateMsg_cached_found:
  assumes alloc: "messages ms = Some c" and key: "cacheKey category lang = Some ck"
    and hit: "c ck = Some tbl" and found: "lookup tbl message = Some v" and v: "v \<noteq> []"
  shows "TranslateMsg ms category message lang e = (Inr v, ms, e)"
  using answer_found [OF alloc hit found v, of e]
  by (simp add: TranslateMsg_def key cached_allocated [OF alloc] hit)

section \<open>The example message source\<close>

lemma example_paths:
  "GetMsgFilePath example_source ''app.msg'' lang = Inr (''msgs/'' @ lang @ ''/'')"
  by (simp add: GetMsgFilePath_def example_source_def)

lemma example_key: "cacheKey ''app.msg'' lang = Some (''app/'' @ lang @ ''/msg'')"
  by (simp add: cacheKey_def)

lemma example_LoadMsgs_specific:
  "LoadMsgs example_source ''app.msg'' ''en-US'' example_env
     = (Inr (Some [(''hello'', ''Howdy''), (''empty'', ''filled''), (''bye'', ''Goodbye'')]),
        \<lparr>world = 2, loaded = [''msgs/en-US/'', ''msgs/en/'']\<rparr>)"
  by (simp add: LoadMsgs_def LoadFallbackMsgs_def example_paths call_loadFunc_def
      example_source_def [THEN arg_cong, of loadFunc] example_source_def [THEN arg_cong, of SourceLang]
      example_load_def example_env_def merge_entry_def read_key_def)

lemma example_LoadMsgs_failure:
  "LoadMsgs example_source ''app.msg'' ''de'' example_env
     = (Inl (Err ''permission denied''), \<lparr>world = 1, loaded = [''msgs/de/'']\<rparr>)"
  by (simp add: LoadMsgs_def example_paths call_loadFunc_def
      example_source_def [THEN arg_cong, of loadFunc]
      example_load_def example_env_def)

section \<open>The claims about the resolver\<close>

text \<open>
  C9. \<open>Translate\<close> returns the empty string and no error, and leaves the message source,
  the world and the list of loaded files as they are, when the language is the source language
  and translation is not forced; in every other case it is \<open>TranslateMsg\<close>.
\<close>

theorem Translate_source_language:
  "Translate ms category message lang e =
     (if lang = SourceLang ms \<and> \<not> ForceTranslation ms then (Inr [], ms, e)
      else TranslateMsg ms category message lang e)"
  by (simp add: Translate_def)

theorem Translate_source_language_witness:
  "Translate example_source ''app.msg'' ''hello'' ''en'' example_env
     = (Inr [], example_source, example_env) \<and>
   Translate (example_source\<lparr>ForceTranslation := True\<rparr>) ''app.msg'' ''hello'' ''en'' example_env
     = TranslateMsg (example_source\<lparr>ForceTranslation := True\<rparr>) ''app.msg'' ''hello'' ''en''
         example_env"
  using Translate_source_language [of example_source "''app.msg''" "''hello''" "''en''" example_env]
    Translate_source_language
      [of "example_source\<lparr>ForceTranslation := True\<rparr>" "''app.msg''" "''hello''" "''en''"
        example_env]
  by (simp add: example_source_def)

text \<open>
  C6. Let the cache be allocated and let the table for the key of the category and the
  language be there, either in the cache already or as what \<open>LoadMsgs\<close> returns now. When
  the message is not in this table, or is there with the empty value, \<open>TranslateMsg\<close>
  returns the empty string and no error and leaves the table that has the message with the
  empty value, and nothing else, in the cache under the key. Asked again for the same message,
  category and language, it gives the same answer and does not touch the loader: the world and
  the list of the loaded files stay as they were.
\<close>

theorem TranslateMsg_missing_key:
  assumes alloc: "messages ms = Some c"
    and key: "cacheKey category lang = Some key"
    and table: "c key = Some tbl \<and> e' = e \<or>
                c key = None \<and> LoadMsgs ms category lang e = (Inr tbl, e')"
    and missing: "lookup tbl message = None \<or> lookup tbl message = Some []"
  shows "TranslateMsg ms category message lang e
           = (Inr [], ms\<lparr>messages := Some (c(key \<mapsto> Some [(message, [])]))\<rparr>, e') \<and>
         (\<forall>e2. TranslateMsg (ms\<lparr>messages := Some (c(key \<mapsto> Some [(message, [])]))\<rparr>)
                  category message lang e2
           = (Inr [], ms\<lparr>messages := Some (c(key \<mapsto> Some [(message, [])]))\<rparr>, e2))"
proof
  let ?ms' = "ms\<lparr>messages := Some (c(key \<mapsto> Some [(message, [])]))\<rparr>"
  from table show "TranslateMsg ms category message lang e = (Inr [], ?ms', e')"
  proof
    assume "c key = Some tbl \<and> e' = e"
    then show ?thesis
      using answer_missing [OF alloc _ missing, of key e]
      by (simp add: TranslateMsg_def key cached_allocated [OF alloc])
  next
    assume l: "c key = None \<and> LoadMsgs ms category lang e = (Inr tbl, e')"
    let ?ms1 = "ms\<lparr>messages := Some (c(key \<mapsto> tbl))\<rparr>"
    have "answer ?ms1 key message e' = (Inr [], ?ms1\<lparr>messages := Some ((c(key \<mapsto> tbl))(key \<mapsto> Some [(message, [])]))\<rparr>, e')"
      by (rule answer_missing [OF _ _ missing]) simp_all
    then show ?thesis
      using l by (simp add: TranslateMsg_def key cached_allocated [OF alloc] store_allocated [OF alloc])
  qed
  show "\<forall>e2. TranslateMsg ?ms' category message lang e2 = (Inr [], ?ms', e2)"
  proof
    fix e2
    have "answer ?ms' key message e2
        = (Inr [], ?ms'\<lparr>messages := Some ((c(key \<mapsto> Some [(message, [])]))(key \<mapsto> Some [(message, [])]))\<rparr>, e2)"
      by (rule answer_missing [where tbl = "Some [(message, [])]"]) (simp_all add: lookup_def)
    then show "TranslateMsg ?ms' category message lang e2 = (Inr [], ?ms', e2)"
      by (simp add: TranslateMsg_def key cached_def)
  qed
qed

theorem TranslateMsg_missing_key_witness:
  "TranslateMsg example_source ''app.msg'' ''nope'' ''en-US'' example_env
     = (Inr [],
        example_source\<lparr>messages := Some [''app/en-US/msg'' \<mapsto> Some [(''nope'', [])]]\<rparr>,
        \<lparr>world = 2, loaded = [''msgs/en-US/'', ''msgs/en/'']\<rparr>) \<and>
   TranslateMsg (example_source\<lparr>messages := Some [''app/en-US/msg'' \<mapsto> Some [(''nope'', [])]]\<rparr>)
       ''app.msg'' ''nope'' ''en-US'' \<lparr>world = 2, loaded = [''msgs/en-US/'', ''msgs/en/'']\<rparr>
     = (Inr [],
        example_source\<lparr>messages := Some [''app/en-US/msg'' \<mapsto> Some [(''nope'', [])]]\<rparr>,
        \<lparr>world = 2, loaded = [''msgs/en-US/'', ''msgs/en/'']\<rparr>)"
proof -
  let ?tbl = "Some [(''hello'', ''Howdy''), (''empty'', ''filled''), (''bye'', ''Goodbye'')]"
  let ?e' = "\<lparr>world = 2, loaded = [''msgs/en-US/'', ''msgs/en/'']\<rparr> :: nat env"
  have alloc: "messages example_source = Some Map.empty" by (simp add: example_source_def)
  have key: "cacheKey ''app.msg'' ''en-US'' = Some ''app/en-US/msg''" by (simp add: example_key)
  have table: "Map.empty ''app/en-US/msg'' = Some ?tbl \<and> ?e' = example_env \<or>
     Map.empty ''app/en-US/msg'' = None \<and>
     LoadMsgs example_source ''app.msg'' ''en-US'' example_env = (Inr ?tbl, ?e')"
    by (simp add: example_LoadMsgs_specific)
  have missing: "lookup ?tbl ''nope'' = None \<or> lookup ?tbl ''nope'' = Some []"
    by (simp add: lookup_def)
  from TranslateMsg_missing_key [OF alloc key table missing] show ?thesis by simp
qed

text \<open>
  C7. When the key is not in the cache and \<open>LoadMsgs\<close> returns an error,
  \<open>TranslateMsg\<close> returns this error and the message source is what it was, its cache
  included. Every later call for the same category and language, whatever the message and
  whatever has happened outside in between, calls the loader again, first with the file of the
  category and the language.
\<close>

theorem TranslateMsg_load_failure:
  assumes key: "cacheKey category lang = Some key"
    and miss: "cached ms key = None"
    and fail: "LoadMsgs ms category lang e = (Inl (Err msg), e')"
  shows "TranslateMsg ms category message lang e = (Inl (Err msg), ms, e') \<and>
         (\<exists>fname. GetMsgFilePath ms category lang = Inr fname \<and>
            (\<forall>message2 e2. \<exists>more.
               loaded (snd (snd (TranslateMsg ms category message2 lang e2)))
                 = loaded e2 @ fname # more))"
proof
  show "TranslateMsg ms category message lang e = (Inl (Err msg), ms, e')"
    by (simp add: TranslateMsg_def key miss fail)
  have "GetMsgFilePath ms category lang \<noteq> Inl Panic"
    using key by (auto simp add: cacheKey_def GetMsgFilePath_def Let_def split: if_splits option.splits)
  then obtain fname where fname: "GetMsgFilePath ms category lang = Inr fname"
    using key by (auto simp add: cacheKey_def GetMsgFilePath_def Let_def split: if_splits option.splits)
  have "\<exists>more. loaded (snd (snd (TranslateMsg ms category message2 lang e2))) = loaded e2 @ fname # more"
    for message2 e2
  proof -
    obtain r e3 where l: "LoadMsgs ms category lang e2 = (r, e3)" by (cases "LoadMsgs ms category lang e2")
    from LoadMsgs_loaded [OF fname, of e2] l obtain more where m: "loaded e3 = loaded e2 @ fname # more"
      by auto
    have "snd (snd (TranslateMsg ms category message2 lang e2)) = e3"
      by (cases r) (simp_all add: TranslateMsg_def key miss l answer_env split: option.splits)
    then show ?thesis using m by simp
  qed
  with fname show "\<exists>fname. GetMsgFilePath ms category lang = Inr fname \<and>
            (\<forall>message2 e2. \<exists>more.
               loaded (snd (snd (TranslateMsg ms category message2 lang e2)))
                 = loaded e2 @ fname # more)" by blast
qed

theorem TranslateMsg_load_failure_witness:
  "TranslateMsg example_source ''app.msg'' ''hello'' ''de'' example_env
     = (Inl (Err ''permission denied''), example_source, \<lparr>world = 1, loaded = [''msgs/de/'']\<rparr>) \<and>
   (\<exists>more. loaded (snd (snd (TranslateMsg example_source ''app.msg'' ''hello'' ''de''
        \<lparr>world = 1, loaded = [''msgs/de/'']\<rparr>))) = [''msgs/de/''] @ ''msgs/de/'' # more)"
proof -
  have key: "cacheKey ''app.msg'' ''de'' = Some ''app/de/msg''" by (simp add: example_key)
  have miss: "cached example_source ''app/de/msg'' = None"
    by (simp add: cached_def example_source_def)
  note c7 = TranslateMsg_load_failure [OF key miss example_LoadMsgs_failure, of "''hello''"]
  then obtain fname where
    f: "GetMsgFilePath example_source ''app.msg'' ''de'' = Inr fname" and
    a: "\<And>message2 e2. \<exists>more.
          loaded (snd (snd (TranslateMsg example_source ''app.msg'' message2 ''de'' e2)))
            = loaded e2 @ fname # more"
    by blast
  have "fname = ''msgs/de/''" using f by (simp add: example_paths)
  with a [of "''hello''" "\<lparr>world = 1, loaded = [''msgs/de/'']\<rparr>"] c7 show ?thesis by simp
qed

text \<open>
  C8. When there is a primary table and the loader has a fallback table (whose keys are
  distinct, as the keys of a Go map are), \<open>LoadFallbackMsgs\<close> returns the primary table with
  these changes and no others: a key gets the value of the fallback table exactly when that
  value is not empty and the primary table lacks the key or has the empty value for it.
  Hence for a language longer than its first two characters, such as \<open>en-US\<close>: a message
  that only the generic table has, with a value that is not empty, is in what \<open>LoadMsgs\<close>
  returns and is what \<open>TranslateMsg\<close> answers, and every value of the specific table that is
  not empty stays and is what \<open>TranslateMsg\<close> answers.
\<close>

theorem LoadFallbackMsgs_merge:
  "(GetMsgFilePath ms category fallbackLang = Inr fname \<and>
    loadFunc ms fname (world e) = ((Some fallback, err), w) \<and>
    distinct (map fst fallback) \<longrightarrow>
      (\<exists>merged.
         LoadFallbackMsgs ms category fallbackLang (Some primary) original e
           = (Inr (Some merged), \<lparr>world = w, loaded = loaded e @ [fname]\<rparr>) \<and>
         (\<forall>key. map_of merged key =
            (if (\<exists>v. map_of fallback key = Some v \<and> v \<noteq> []) \<and>
                (map_of primary key = None \<or> map_of primary key = Some [])
             then map_of fallback key else map_of primary key)))) \<and>
   (lang \<noteq> take 2 lang \<and> 2 \<le> length (SourceLang ms) \<and>
    GetMsgFilePath ms category lang = Inr f1 \<and>
    GetMsgFilePath ms category (take 2 lang) = Inr f2 \<and>
    loadFunc ms f1 (world e) = ((specific, None), w1) \<and>
    loadFunc ms f2 w1 = ((Some generic, err2), w2) \<and>
    distinct (map fst generic) \<and>
    map_of generic message = Some v \<and> v \<noteq> [] \<and> lookup specific message = None \<and>
    messages ms = Some c \<and> cacheKey category lang = Some ck \<and> c ck = None \<longrightarrow>
      (\<exists>merged.
         LoadMsgs ms category lang e
           = (Inr merged, \<lparr>world = w2, loaded = loaded e @ [f1, f2]\<rparr>) \<and>
         lookup merged message = Some v \<and>
         TranslateMsg ms category message lang e
           = (Inr v, ms\<lparr>messages := Some (c(ck \<mapsto> merged))\<rparr>,
              \<lparr>world = w2, loaded = loaded e @ [f1, f2]\<rparr>) \<and>
         (\<forall>k u. lookup specific k = Some u \<and> u \<noteq> [] \<longrightarrow>
            lookup merged k = Some u \<and>
            TranslateMsg ms category k lang e
              = (Inr u, ms\<lparr>messages := Some (c(ck \<mapsto> merged))\<rparr>,
                 \<lparr>world = w2, loaded = loaded e @ [f1, f2]\<rparr>))))"
proof (intro conjI impI)
  assume a: "GetMsgFilePath ms category fallbackLang = Inr fname \<and>
    loadFunc ms fname (world e) = ((Some fallback, err), w) \<and>
    distinct (map fst fallback)"
  then have f: "GetMsgFilePath ms category fallbackLang = Inr fname"
    and l: "loadFunc ms fname (world e) = ((Some fallback, err), w)"
    and d: "distinct (map fst fallback)" by simp_all
  let ?merged = "fold (merge_entry fallback) fallback primary"
  have "\<forall>key. map_of ?merged key =
            (if (\<exists>v. map_of fallback key = Some v \<and> v \<noteq> []) \<and>
                (map_of primary key = None \<or> map_of primary key = Some [])
             then map_of fallback key else map_of primary key)"
    by (auto simp add: merge_table [OF d] split: option.splits)
  with LoadFallbackMsgs_both [OF f l, of primary original]
  show "\<exists>merged.
         LoadFallbackMsgs ms category fallbackLang (Some primary) original e
           = (Inr (Some merged), \<lparr>world = w, loaded = loaded e @ [fname]\<rparr>) \<and>
         (\<forall>key. map_of merged key =
            (if (\<exists>v. map_of fallback key = Some v \<and> v \<noteq> []) \<and>
                (map_of primary key = None \<or> map_of primary key = Some [])
             then map_of fallback key else map_of primary key))"
    by blast
next
  assume a: "lang \<noteq> take 2 lang \<and> 2 \<le> length (SourceLang ms) \<and>
    GetMsgFilePath ms category lang = Inr f1 \<and>
    GetMsgFilePath ms category (take 2 lang) = Inr f2 \<and>
    loadFunc ms f1 (world e) = ((specific, None), w1) \<and>
    loadFunc ms f2 w1 = ((Some generic, err2), w2) \<and>
    distinct (map fst generic) \<and>
    map_of generic message = Some v \<and> v \<noteq> [] \<and> lookup specific message = None \<and>
    messages ms = Some c \<and> cacheKey category lang = Some ck \<and> c ck = None"
  let ?e2 = "\<lparr>world = w2, loaded = loaded e @ [f1, f2]\<rparr>"
  from a have g: "map_of generic message = Some v" and v: "v \<noteq> []"
    and s: "lookup specific message = None"
    and alloc: "messages ms = Some c" and ck: "cacheKey category lang = Some ck"
    and miss: "c ck = None" by simp_all
  from a LoadMsgs_specific_generic [of lang ms category f1 f2 e specific w1 generic err2 w2]
  obtain merged where
    load: "LoadMsgs ms category lang e = (Inr merged, ?e2)" and
    look: "\<And>k. lookup merged k =
            (if (\<exists>v. map_of generic k = Some v \<and> v \<noteq> []) \<and>
                (lookup specific k = None \<or> lookup specific k = Some [])
             then map_of generic k
             else if specific = None then map_of generic k else lookup specific k)"
    by blast
  have m: "lookup merged message = Some v" using g v s by (simp add: look)
  have sp: "lookup merged k = Some u" if "lookup specific k = Some u \<and> u \<noteq> []" for k u
  proof -
    have "specific \<noteq> None" using that by (cases specific) (simp_all add: lookup_def)
    then show ?thesis using that by (auto simp add: look)
  qed
  note tr = TranslateMsg_loaded_found [OF alloc ck miss load]
  have "\<forall>k u. lookup specific k = Some u \<and> u \<noteq> [] \<longrightarrow>
            lookup merged k = Some u \<and>
            TranslateMsg ms category k lang e
              = (Inr u, ms\<lparr>messages := Some (c(ck \<mapsto> merged))\<rparr>, ?e2)"
    using sp tr by blast
  with load m tr [OF m v]
  show "\<exists>merged.
         LoadMsgs ms category lang e = (Inr merged, ?e2) \<and>
         lookup merged message = Some v \<and>
         TranslateMsg ms category message lang e
           = (Inr v, ms\<lparr>messages := Some (c(ck \<mapsto> merged))\<rparr>, ?e2) \<and>
         (\<forall>k u. lookup specific k = Some u \<and> u \<noteq> [] \<longrightarrow>
            lookup merged k = Some u \<and>
            TranslateMsg ms category k lang e
              = (Inr u, ms\<lparr>messages := Some (c(ck \<mapsto> merged))\<rparr>, ?e2))"
    by blast
qed

theorem LoadFallbackMsgs_merge_witness:
  "LoadFallbackMsgs example_source ''app.msg'' ''en''
       (Some [(''hello'', ''Howdy''), (''empty'', [])]) ''msgs/en-US/'' example_env
     = (Inr (Some [(''hello'', ''Howdy''), (''empty'', ''filled''), (''bye'', ''Goodbye'')]),
        \<lparr>world = 1, loaded = [''msgs/en/'']\<rparr>) \<and>
   TranslateMsg example_source ''app.msg'' ''bye'' ''en-US'' example_env
     = (Inr ''Goodbye'',
        example_source\<lparr>messages := Some [''app/en-US/msg'' \<mapsto>
          Some [(''hello'', ''Howdy''), (''empty'', ''filled''), (''bye'', ''Goodbye'')]]\<rparr>,
        \<lparr>world = 2, loaded = [''msgs/en-US/'', ''msgs/en/'']\<rparr>) \<and>
   TranslateMsg example_source ''app.msg'' ''hello'' ''en-US'' example_env
     = (Inr ''Howdy'',
        example_source\<lparr>messages := Some [''app/en-US/msg'' \<mapsto>
          Some [(''hello'', ''Howdy''), (''empty'', ''filled''), (''bye'', ''Goodbye'')]]\<rparr>,
        \<lparr>world = 2, loaded = [''msgs/en-US/'', ''msgs/en/'']\<rparr>)"
proof -
  let ?generic = "[(''hello'', ''Hello''), (''bye'', ''Goodbye''), (''empty'', ''filled'')]"
  let ?specific = "[(''hello'', ''Howdy''), (''empty'', [])]"
  let ?merged = "Some [(''hello'', ''Howdy''), (''empty'', ''filled''), (''bye'', ''Goodbye'')]"
  have f2: "GetMsgFilePath example_source ''app.msg'' ''en'' = Inr ''msgs/en/''"
    by (simp add: example_paths)
  have f1: "GetMsgFilePath example_source ''app.msg'' ''en-US'' = Inr ''msgs/en-US/''"
    by (simp add: example_paths)
  have l0: "loadFunc example_source ''msgs/en/'' (world example_env) = ((Some ?generic, None), 1)"
    by (simp add: example_source_def example_load_def example_env_def)
  have l1: "loadFunc example_source ''msgs/en-US/'' (world example_env) = ((Some ?specific, None), 1)"
    by (simp add: example_source_def example_load_def example_env_def)
  have l2: "loadFunc example_source ''msgs/en/'' 1 = ((Some ?generic, None), 2)"
    by (simp add: example_source_def example_load_def)
  have d: "distinct (map fst ?generic)" by simp
  have h1: "GetMsgFilePath example_source ''app.msg'' ''en'' = Inr ''msgs/en/'' \<and>
    loadFunc example_source ''msgs/en/'' (world example_env) = ((Some ?generic, None), 1) \<and>
    distinct (map fst ?generic)"
    using f2 l0 d by blast
  have h2: "''en-US'' \<noteq> take 2 ''en-US'' \<and> 2 \<le> length (SourceLang example_source) \<and>
    GetMsgFilePath example_source ''app.msg'' ''en-US'' = Inr ''msgs/en-US/'' \<and>
    GetMsgFilePath example_source ''app.msg'' (take 2 ''en-US'') = Inr ''msgs/en/'' \<and>
    loadFunc example_source ''msgs/en-US/'' (world example_env) = ((Some ?specific, None), 1) \<and>
    loadFunc example_source ''msgs/en/'' 1 = ((Some ?generic, None), 2) \<and>
    distinct (map fst ?generic) \<and>
    map_of ?generic ''bye'' = Some ''Goodbye'' \<and> ''Goodbye'' \<noteq> [] \<and>
    lookup (Some ?specific) ''bye'' = None \<and>
    messages example_source = Some Map.empty \<and>
    cacheKey ''app.msg'' ''en-US'' = Some ''app/en-US/msg'' \<and>
    Map.empty ''app/en-US/msg'' = None"
    using f1 f2 l1 l2 by (simp add: lookup_def example_key) (simp add: example_source_def)
  note c8 = LoadFallbackMsgs_merge [of example_source "''app.msg''" "''en''" "''msgs/en/''" example_env ?generic None 1
      ?specific "''msgs/en-US/''" "''en-US''" "''msgs/en-US/''" "''msgs/en/''" "Some ?specific" 1
      ?generic None 2 "''bye''" "''Goodbye''" Map.empty "''app/en-US/msg''"]
  from c8 h1 obtain m1 where
    a1: "LoadFallbackMsgs example_source ''app.msg'' ''en'' (Some ?specific) ''msgs/en-US/'' example_env
         = (Inr (Some m1), \<lparr>world = 1, loaded = loaded example_env @ [''msgs/en/'']\<rparr>)"
    by blast
  from c8 h2 obtain m2 where
    a2: "LoadMsgs example_source ''app.msg'' ''en-US'' example_env
           = (Inr m2, \<lparr>world = 2, loaded = loaded example_env @ [''msgs/en-US/'', ''msgs/en/'']\<rparr>)"
    and a3: "TranslateMsg example_source ''app.msg'' ''bye'' ''en-US'' example_env
           = (Inr ''Goodbye'', example_source\<lparr>messages := Some [''app/en-US/msg'' \<mapsto> m2]\<rparr>,
              \<lparr>world = 2, loaded = loaded example_env @ [''msgs/en-US/'', ''msgs/en/'']\<rparr>)"
    and a4: "\<And>k u. lookup (Some ?specific) k = Some u \<and> u \<noteq> [] \<Longrightarrow>
            TranslateMsg example_source ''app.msg'' k ''en-US'' example_env
              = (Inr u, example_source\<lparr>messages := Some [''app/en-US/msg'' \<mapsto> m2]\<rparr>,
                 \<lparr>world = 2, loaded = loaded example_env @ [''msgs/en-US/'', ''msgs/en/'']\<rparr>)"
    by blast
  have m2: "m2 = ?merged" using a2 by (simp add: example_LoadMsgs_specific)
  have m1: "m1 = [(''hello'', ''Howdy''), (''empty'', ''filled''), (''bye'', ''Goodbye'')]"
    using a1 by (simp add: LoadFallbackMsgs_both [OF f2 l0] merge_entry_def read_key_def)
  have "lookup (Some ?specific) ''hello'' = Some ''Howdy'' \<and> ''Howdy'' \<noteq> []"
    by (simp add: lookup_def)
  from a4 [OF this] a1 a3 show ?thesis by (simp add: m1 m2 example_env_def)
qed

section \<open>The claim about the components of a category\<close>

text \<open>
  C10, as the specification has it, fails: for the category \<open>a.b.c\<close> the suffix is
  \<open>b\<close>, not \<open>b.c\<close>, in the key of the cache and in the file path.
\<close>

theorem suffix_is_second_segment_only:
  "Split ''a.b.c'' CHR ''.'' ! 1 = ''b'' \<and>
   cacheKey ''a.b.c'' ''en'' = Some ''a/en/b'' \<and>
   cacheKey ''a.b.c'' ''en'' \<noteq> Some ''a/en/b.c'' \<and>
   GetMsgFilePath (example_source\<lparr>FileMap := [''b'' \<mapsto> ''x'']\<rparr>) ''a.b.c'' ''en''
     = Inr ''msgs/en/b.json''"
  by (simp add: cacheKey_def GetMsgFilePath_def example_source_def Replace_def)

text \<open>
  C10, as the code has it. A category with a dot is \<open>namespace.suffix\<close> followed by nothing
  or by a further dot and more text, where neither the namespace nor the suffix has a dot. The
  namespace and this suffix are the two components that the code takes. They make the key of
  the cache, \<open>namespace/lang/suffix\<close>, which is where \<open>TranslateMsg\<close> finds a cached table.
  In \<open>GetMsgFilePath\<close> this suffix is what is looked up in \<open>FileMap\<close> and what the file
  name is made of, with its backslashes replaced and the extension added. Whatever follows a
  second dot is dropped: the file path is the file path of \<open>namespace.suffix\<close>.
\<close>

theorem category_components:
  assumes dot: "CHR ''.'' \<in> set category"
  shows "\<exists>namespace suffix later.
     category = namespace @ ''.'' @ suffix @ later \<and>
     CHR ''.'' \<notin> set namespace \<and> CHR ''.'' \<notin> set suffix \<and>
     (later = [] \<or> hd later = CHR ''.'') \<and>
     Split category CHR ''.'' ! 0 = namespace \<and>
     Split category CHR ''.'' ! 1 = suffix \<and>
     cacheKey category lang = Some (namespace @ ''/'' @ lang @ ''/'' @ suffix) \<and>
     (\<forall>c tbl v.
        messages ms = Some c \<and> c (namespace @ ''/'' @ lang @ ''/'' @ suffix) = Some tbl \<and>
        lookup tbl message = Some v \<and> v \<noteq> [] \<longrightarrow>
        TranslateMsg ms category message lang e = (Inr v, ms, e)) \<and>
     GetMsgFilePath ms category lang =
       (case FileMap ms suffix of
          None \<Rightarrow> Inr (BasePath ms @ ''/'' @ lang @ ''/'')
        | Some v \<Rightarrow>
            Inr (BasePath ms @ ''/'' @ lang @ ''/'' @ Replace suffix (CHR 0x5C) CHR ''/'' @
                 (if fileSuffix ms \<noteq> [] then ''.'' @ fileSuffix ms else []))) \<and>
     GetMsgFilePath ms category lang = GetMsgFilePath ms (namespace @ ''.'' @ suffix) lang"
proof -
  let ?P = "\<lambda>x. x \<noteq> CHR ''.''"
  define namespace where "namespace = takeWhile ?P category"
  define rest where "rest = tl (dropWhile ?P category)"
  define suffix where "suffix = takeWhile ?P rest"
  define later where "later = dropWhile ?P rest"
  have dw: "dropWhile ?P category \<noteq> []" using dot by simp
  have "hd (dropWhile ?P category) = CHR ''.''" using hd_dropWhile [OF dw] by simp
  then have "dropWhile ?P category = CHR ''.'' # rest"
    using dw by (cases "dropWhile ?P category") (simp_all add: rest_def)
  then have "category = namespace @ CHR ''.'' # rest"
    using takeWhile_dropWhile_id [of ?P category] by (simp add: namespace_def)
  moreover have "rest = suffix @ later" by (simp add: suffix_def later_def)
  ultimately have cat: "category = namespace @ ''.'' @ suffix @ later" by simp
  have ns: "CHR ''.'' \<notin> set namespace" unfolding namespace_def by (auto dest: set_takeWhileD)
  have sf: "CHR ''.'' \<notin> set suffix" unfolding suffix_def by (auto dest: set_takeWhileD)
  have lt: "later = [] \<or> hd later = CHR ''.''"
    using hd_dropWhile [of ?P rest] by (auto simp add: later_def)
  have dot2: "CHR ''.'' \<in> set (namespace @ ''.'' @ suffix)" by simp
  have ns': "\<forall>x\<in>set namespace. ?P x" using ns by blast
  have sf': "\<forall>x\<in>set suffix. ?P x" using sf by blast
  have "dropWhile ?P (namespace @ ''.'' @ suffix) = ''.'' @ suffix"
    using ns' by simp
  then have sf2: "takeWhile ?P (tl (dropWhile ?P (namespace @ ''.'' @ suffix))) = suffix"
    using sf' by simp
  have s0: "Split category CHR ''.'' ! 0 = namespace" by (simp add: Split_first namespace_def)
  have s1: "Split category CHR ''.'' ! 1 = suffix"
    by (simp add: Split_second [OF dot] suffix_def rest_def)
  have ck: "cacheKey category lang = Some (namespace @ ''/'' @ lang @ ''/'' @ suffix)"
    by (simp add: cacheKey_dotted [OF dot] namespace_def suffix_def rest_def)
  have tr: "\<forall>c tbl v.
        messages ms = Some c \<and> c (namespace @ ''/'' @ lang @ ''/'' @ suffix) = Some tbl \<and>
        lookup tbl message = Some v \<and> v \<noteq> [] \<longrightarrow>
        TranslateMsg ms category message lang e = (Inr v, ms, e)"
    using TranslateMsg_cached_found [OF _ ck] by blast
  have path: "GetMsgFilePath ms category lang =
       (case FileMap ms suffix of
          None \<Rightarrow> Inr (BasePath ms @ ''/'' @ lang @ ''/'')
        | Some v \<Rightarrow>
            Inr (BasePath ms @ ''/'' @ lang @ ''/'' @ Replace suffix (CHR 0x5C) CHR ''/'' @
                 (if fileSuffix ms \<noteq> [] then ''.'' @ fileSuffix ms else [])))"
    unfolding suffix_def rest_def
    by (simp add: GetMsgFilePath_dotted [OF dot] Let_def split: option.split)
  have same: "GetMsgFilePath ms category lang = GetMsgFilePath ms (namespace @ ''.'' @ suffix) lang"
    unfolding GetMsgFilePath_dotted [OF dot] GetMsgFilePath_dotted [OF dot2] sf2
    by (simp add: suffix_def rest_def)
  from cat ns sf lt s0 s1 ck tr path same show ?thesis by blast
qed

theorem category_components_witness:
  "CHR ''.'' \<in> set ''a.b.c'' \<and>
   cacheKey ''a.b.c'' ''en'' = Some ''a/en/b'' \<and>
   TranslateMsg example_cached ''a.b.c'' ''hello'' ''en'' example_env
     = (Inr ''Hi'', example_cached, example_env) \<and>
   GetMsgFilePath example_cached ''a.b.c'' ''en'' = Inr ''msgs/en/b.json''"
proof -
  have dot: "CHR ''.'' \<in> set ''a.b.c''" by simp
  from category_components [OF dot, of "''en''" example_cached "''hello''" example_env]
  obtain namespace suffix where
    s0: "Split ''a.b.c'' CHR ''.'' ! 0 = namespace" and
    s1: "Split ''a.b.c'' CHR ''.'' ! 1 = suffix" and
    ck: "cacheKey ''a.b.c'' ''en'' = Some (namespace @ ''/'' @ ''en'' @ ''/'' @ suffix)" and
    tr: "\<And>c tbl v. messages example_cached = Some c \<and>
        c (namespace @ ''/'' @ ''en'' @ ''/'' @ suffix) = Some tbl \<and>
        lookup tbl ''hello'' = Some v \<and> v \<noteq> [] \<Longrightarrow>
        TranslateMsg example_cached ''a.b.c'' ''hello'' ''en'' example_env
          = (Inr v, example_cached, example_env)" and
    path: "GetMsgFilePath example_cached ''a.b.c'' ''en'' =
       (case FileMap example_cached suffix of
          None \<Rightarrow> Inr (BasePath example_cached @ ''/'' @ ''en'' @ ''/'')
        | Some v \<Rightarrow>
            Inr (BasePath example_cached @ ''/'' @ ''en'' @ ''/'' @
                 Replace suffix (CHR 0x5C) CHR ''/'' @
                 (if fileSuffix example_cached \<noteq> [] then ''.'' @ fileSuffix example_cached
                  else [])))"
    by blast
  have n: "namespace = ''a''" using s0 by simp
  have s: "suffix = ''b''" using s1 by simp
  have "messages example_cached = Some [''a/en/b'' \<mapsto> Some [(''hello'', ''Hi'')]] \<and>
        [''a/en/b'' \<mapsto> Some [(''hello'', ''Hi'')]] (namespace @ ''/'' @ ''en'' @ ''/'' @ suffix)
          = Some (Some [(''hello'', ''Hi'')]) \<and>
        lookup (Some [(''hello'', ''Hi'')]) ''hello'' = Some ''Hi'' \<and> ''Hi'' \<noteq> []"
    by (simp add: example_cached_def n s lookup_def)
  from tr [OF this] ck path dot show ?thesis
    by (simp add: n s example_cached_def example_source_def Replace_def)
qed

end
